theory Spec2Isabelle
  imports Complex_Main
begin

section \<open>The decrementer matrix of Exercise 2\<close>

text \<open>
  Errors the notebook can raise: an unbound name, the type error of \<open>np.zeros\<close> on a
  shape that is not an integer, an index out of range, the two failures of \<open>np.zeros\<close>
  on an array that is too large (a value error when its size in bytes exceeds what numpy
  can address, a memory error when the allocation fails), and the refusal of the quantum
  framework to register a matrix that is not a gate matrix.
\<close>

datatype py_error =
  NameError string | TypeError | IndexError | ValueError | MemoryError | FrameworkError

text \<open>
  A numpy array of shape \<open>(r, c)\<close> is a list of \<open>r\<close> rows of \<open>c\<close> entries. The entries
  are float64 values; the source only ever stores 0.0 and 1.0, which are exact, so the
  entries are modelled as reals.
\<close>

type_synonym matrix = "real list list"

definition zeros :: "nat \<Rightarrow> nat \<Rightarrow> matrix" where
  "zeros r c = replicate r (replicate c 0)"

text \<open>
  What the machine running the notebook can hold: the largest size in bytes numpy
  accepts for an array (the largest signed machine integer), and the number of bytes an
  allocation can obtain. Both are parameters of the model.
\<close>

record machine =
  max_bytes :: nat
  free_bytes :: nat

text \<open>A 64-bit machine with the given amount of memory.\<close>

definition machine64 :: "nat \<Rightarrow> machine" where
  "machine64 mem = \<lparr>max_bytes = 2 ^ 63 - 1, free_bytes = mem\<rparr>"

text \<open>An array of \<open>r\<close> rows of \<open>c\<close> float64 entries takes \<open>8 * r * c\<close> bytes.\<close>

definition array_fits :: "machine \<Rightarrow> nat \<Rightarrow> nat \<Rightarrow> bool" where
  "array_fits mc r c = (8 * r * c \<le> max_bytes mc \<and> 8 * r * c \<le> free_bytes mc)"

text \<open>
  \<open>np.zeros((r, c))\<close>: numpy first checks that the size in bytes can be addressed, then
  allocates.
\<close>

definition np_zeros :: "machine \<Rightarrow> nat \<Rightarrow> nat \<Rightarrow> py_error + matrix" where
  "np_zeros mc r c =
     (if max_bytes mc < 8 * r * c then Inl ValueError
      else if free_bytes mc < 8 * r * c then Inl MemoryError
      else Inr (zeros r c))"

text \<open>\<open>m[i, j] = v\<close> for indices in range (the loop below never leaves the range).\<close>

definition set_entry :: "matrix \<Rightarrow> nat \<Rightarrow> nat \<Rightarrow> real \<Rightarrow> matrix" where
  "set_entry m i j v = m[i := (m ! i)[j := v]]"

text \<open>
  The loop of \<open>decrementer\<close>,
  \<open>for i in range(size): dec_matrix[i, (i + 1) % size] = 1\<close>, on the array it is given.
\<close>

definition dec_loop :: "nat \<Rightarrow> matrix \<Rightarrow> matrix" where
  "dec_loop sz m0 = fold (\<lambda>i m. set_entry m i ((i + 1) mod sz) 1) [0..<sz] m0"

text \<open>The loop on the array of zeros: the matrix \<open>decrementer\<close> returns when it returns.\<close>

definition dec_matrix :: "nat \<Rightarrow> matrix" where
  "dec_matrix sz = dec_loop sz (zeros sz sz)"

text \<open>
  \<open>decrementer(num_qubits)\<close>: \<open>size = 2**num_qubits\<close>, then
  \<open>dec_matrix = np.zeros((size, size))\<close>, the loop, and \<open>return dec_matrix\<close>. For a
  negative argument \<open>2**num_qubits\<close> is a float and \<open>np.zeros\<close> raises a type error; for
  a large one \<open>np.zeros\<close> fails as above.
\<close>

definition decrementer :: "machine \<Rightarrow> int \<Rightarrow> py_error + matrix" where
  "decrementer mc num_qubits =
     (if num_qubits < 0 then Inl TypeError
      else let sz = 2 ^ nat num_qubits in
        (case np_zeros mc sz sz of
           Inl err \<Rightarrow> Inl err
         | Inr z \<Rightarrow> Inr (dec_loop sz z)))"

subsection \<open>Matrices acting on vectors\<close>

definition dot :: "real list \<Rightarrow> real list \<Rightarrow> real" where
  "dot u v = sum_list (map2 (*) u v)"

definition mat_vec :: "matrix \<Rightarrow> real list \<Rightarrow> real list" where
  "mat_vec m v = map (\<lambda>row. dot row v) m"

definition basis_vec :: "nat \<Rightarrow> nat \<Rightarrow> real list" where
  "basis_vec sz i = (replicate sz 0)[i := 1]"

definition column :: "matrix \<Rightarrow> nat \<Rightarrow> real list" where
  "column m j = map (\<lambda>row. row ! j) m"

definition ncols :: "matrix \<Rightarrow> nat" where
  "ncols m = (case m of [] \<Rightarrow> 0 | row # _ \<Rightarrow> length row)"

definition transpose_mat :: "matrix \<Rightarrow> matrix" where
  "transpose_mat m = map (column m) [0..<ncols m]"

definition mat_mul :: "matrix \<Rightarrow> matrix \<Rightarrow> matrix" where
  "mat_mul a b = map (\<lambda>row. map (\<lambda>j. dot row (column b j)) [0..<ncols b]) a"

definition identity_mat :: "nat \<Rightarrow> matrix" where
  "identity_mat sz = map (basis_vec sz) [0..<sz]"

text \<open>\<open>(i - 1) mod sz\<close> on Python integers.\<close>

definition pred_mod :: "nat \<Rightarrow> nat \<Rightarrow> nat" where
  "pred_mod sz i = nat ((int i - 1) mod int sz)"

definition succ_mod :: "nat \<Rightarrow> nat \<Rightarrow> nat" where
  "succ_mod sz i = (i + 1) mod sz"

section \<open>Kernels and their simulation\<close>

text \<open>
  The kernels of the notebook are straight-line sequences of gate applications on the
  qubits of a register. The gates \<open>x\<close>, \<open>h\<close>, the application of a registered custom
  operation and its \<open>.ctrl\<close> form belong to the quantum framework; they are modelled by
  their standard action on the state vector of an \<open>n\<close>-qubit register. A basis state is
  the list of the qubits' bits, qubit 0 first, as in the bit strings the framework
  reports; its index in the state vector reads that list as a binary number, most
  significant bit first, which is also the order in which a custom operation's matrix is
  indexed by its qubit arguments.
\<close>

type_synonym state = "complex list"

fun index_of :: "bool list \<Rightarrow> nat" where
  "index_of [] = 0"
| "index_of (b # bs) = (if b then 2 ^ length bs else 0) + index_of bs"

fun bits_of :: "nat \<Rightarrow> nat \<Rightarrow> bool list" where
  "bits_of 0 i = []"
| "bits_of (Suc n) i = odd (i div 2 ^ n) # bits_of n i"

definition ket :: "nat \<Rightarrow> nat \<Rightarrow> state" where
  "ket n i = (replicate (2 ^ n) 0)[i := 1]"

definition flip :: "nat \<Rightarrow> bool list \<Rightarrow> bool list" where
  "flip q bs = bs[q := \<not> bs ! q]"

definition get_bits :: "nat list \<Rightarrow> bool list \<Rightarrow> bool list" where
  "get_bits ts bs = map (\<lambda>t. bs ! t) ts"

fun put_bits :: "nat list \<Rightarrow> bool list \<Rightarrow> bool list \<Rightarrow> bool list" where
  "put_bits (t # ts) (v # vs) bs = put_bits ts vs (bs[t := v])"
| "put_bits _ _ bs = bs"

definition apply_x :: "nat \<Rightarrow> nat \<Rightarrow> state \<Rightarrow> state" where
  "apply_x n q \<psi> = map (\<lambda>i. \<psi> ! index_of (flip q (bits_of n i))) [0..<2 ^ n]"

definition apply_h :: "nat \<Rightarrow> nat \<Rightarrow> state \<Rightarrow> state" where
  "apply_h n q \<psi> =
     map (\<lambda>i. let bs = bits_of n i in
            (\<psi> ! index_of (bs[q := False]) +
             (if bs ! q then - 1 else 1) * \<psi> ! index_of (bs[q := True])) / complex_of_real (sqrt 2))
       [0..<2 ^ n]"

definition apply_custom :: "matrix \<Rightarrow> nat \<Rightarrow> nat list \<Rightarrow> state \<Rightarrow> state" where
  "apply_custom M n ts \<psi> =
     map (\<lambda>i. let bs = bits_of n i; r = index_of (get_bits ts bs) in
            (\<Sum>k\<leftarrow>[0..<2 ^ length ts].
               complex_of_real (M ! r ! k) * \<psi> ! index_of (put_bits ts (bits_of (length ts) k) bs)))
       [0..<2 ^ n]"

definition apply_ctrl :: "matrix \<Rightarrow> nat \<Rightarrow> nat \<Rightarrow> nat list \<Rightarrow> state \<Rightarrow> state" where
  "apply_ctrl M n c ts \<psi> =
     map (\<lambda>i. if bits_of n i ! c then apply_custom M n ts \<psi> ! i else \<psi> ! i) [0..<2 ^ n]"

text \<open>
  The gate statements of the kernels: \<open>x(q)\<close>, \<open>h(q)\<close>, \<open>NAME(q0, q1, ...)\<close> and
  \<open>NAME.ctrl(c, q0, q1, ...)\<close> for an operation registered under \<open>NAME\<close>.
\<close>

datatype gate = X nat | H nat | Custom string "nat list" | Ctrl string nat "nat list"

definition valid_targets :: "nat \<Rightarrow> nat list \<Rightarrow> bool" where
  "valid_targets n ts = (distinct ts \<and> list_all (\<lambda>t. t < n) ts)"

text \<open>
  One gate on an \<open>n\<close>-qubit register; \<open>None\<close> when a qubit index is out of range, the
  operation is not registered or its matrix does not fit the number of targets.
\<close>

definition apply_gate :: "(string \<rightharpoonup> matrix) \<Rightarrow> nat \<Rightarrow> gate \<Rightarrow> state \<Rightarrow> state option" where
  "apply_gate ops n g \<psi> =
     (case g of
        X q \<Rightarrow> if q < n then Some (apply_x n q \<psi>) else None
      | H q \<Rightarrow> if q < n then Some (apply_h n q \<psi>) else None
      | Custom name ts \<Rightarrow>
          (case ops name of
             None \<Rightarrow> None
           | Some M \<Rightarrow>
               if valid_targets n ts \<and> length M = 2 ^ length ts
               then Some (apply_custom M n ts \<psi>) else None)
      | Ctrl name c ts \<Rightarrow>
          (case ops name of
             None \<Rightarrow> None
           | Some M \<Rightarrow>
               if c < n \<and> valid_targets n (c # ts) \<and> length M = 2 ^ length ts
               then Some (apply_ctrl M n c ts \<psi>) else None))"

fun run_gates :: "(string \<rightharpoonup> matrix) \<Rightarrow> nat \<Rightarrow> gate list \<Rightarrow> state \<Rightarrow> state option" where
  "run_gates ops n [] \<psi> = Some \<psi>"
| "run_gates ops n (g # gs) \<psi> =
     (case apply_gate ops n g \<psi> of None \<Rightarrow> None | Some \<psi>' \<Rightarrow> run_gates ops n gs \<psi>')"

text \<open>Exercise 1: the body of \<open>initial_position(qubits)\<close>, on the qubits of its argument.\<close>

definition initial_position :: "gate list" where
  "initial_position = [X 2, H 3]"

text \<open>
  Exercise 2: \<open>check_decrementer_kernel\<close> allocates \<open>cudaq.qvector(4)\<close>; its body is
  \<open>x(qubits[3])\<close> and \<open>DEC(qubits[0], qubits[1], qubits[2], qubits[3])\<close>.
\<close>

definition check_decrementer_qubits :: nat where
  "check_decrementer_qubits = 4"

definition check_decrementer_kernel :: "gate list" where
  "check_decrementer_kernel = [X 3, Custom ''DEC'' [0, 1, 2, 3]]"

text \<open>
  A matrix the framework accepts as an operation: \<open>2^N\<close> rows of \<open>2^N\<close> entries for
  some number \<open>N \<ge> 1\<close> of target qubits.
\<close>

definition operation_matrix :: "matrix \<Rightarrow> bool" where
  "operation_matrix m =
     ((\<exists>N\<in>{1..length m}. length m = 2 ^ N) \<and> list_all (\<lambda>row. length row = length m) m)"

text \<open>
  \<open>cudaq.register_operation(name, m)\<close>: the registry with \<open>m\<close> under \<open>name\<close>, or the
  framework's refusal.
\<close>

definition register_operation ::
  "string \<Rightarrow> matrix \<Rightarrow> (string \<rightharpoonup> matrix) \<Rightarrow> py_error + (string \<rightharpoonup> matrix)" where
  "register_operation name m ops =
     (if operation_matrix m then Inr (ops(name \<mapsto> m)) else Inl FrameworkError)"

subsection \<open>Sampling\<close>

text \<open>
  \<open>cudaq.sample(kernel, shots_count=s)\<close> runs the kernel \<open>s\<close> times; every shot yields
  one basis state of the register, drawn with the probability the final state gives it,
  and records the bits of the measured qubits (all qubits when the kernel has no
  measurement of its own). The result maps every recorded bit string to the number of
  shots that produced it. The draws are an input of the model.
\<close>

definition probabilities :: "state \<Rightarrow> real list" where
  "probabilities \<psi> = map (\<lambda>a. (cmod a)\<^sup>2) \<psi>"

definition possible_shot :: "state \<Rightarrow> nat \<Rightarrow> bool" where
  "possible_shot \<psi> i = (i < length \<psi> \<and> 0 < probabilities \<psi> ! i)"

definition bitstring :: "bool list \<Rightarrow> string" where
  "bitstring bs = map (\<lambda>b. if b then CHR ''1'' else CHR ''0'') bs"

definition mz :: "nat \<Rightarrow> nat list \<Rightarrow> nat \<Rightarrow> string" where
  "mz n qs i = bitstring (get_bits qs (bits_of n i))"

definition counts :: "string list \<Rightarrow> (string \<times> nat) list" where
  "counts shots = map (\<lambda>k. (k, count_list shots k)) (remdups shots)"

definition sample :: "nat \<Rightarrow> nat list \<Rightarrow> nat list \<Rightarrow> (string \<times> nat) list" where
  "sample n measured draws = counts (map (mz n measured) draws)"

definition most_probable :: "(string \<times> nat) list \<Rightarrow> string option" where
  "most_probable h =
     (case h of
        [] \<Rightarrow> None
      | kc # rest \<Rightarrow> Some (fst (fold (\<lambda>kc best. if snd best < snd kc then kc else best) rest kc)))"

section \<open>The walk step of Exercise 3\<close>

text \<open>
  A statement of a kernel body: a gate, a call of another kernel on some qubits, or a
  measurement \<open>mz\<close>.
\<close>

datatype stmt = Gate gate | Call string "nat list" | Mz "nat list"

text \<open>
  \<open>DTQW_one_step(num_qubits)\<close> allocates \<open>walker_qubits = cudaq.qvector(num_qubits)\<close>,
  then \<open>coin_qubit\<close> and \<open>endpoint_qubit\<close>, so the walker qubits are the qubits
  \<open>0 .. num_qubits - 1\<close> of the register, the coin is qubit \<open>num_qubits\<close> and the
  endpoint is qubit \<open>num_qubits + 1\<close>. The body reads \<open>walker_qubits[0]\<close> to
  \<open>walker_qubits[3]\<close>, which is out of range for fewer than four walker qubits.
\<close>

definition DTQW_one_step :: "nat \<Rightarrow> py_error + stmt list" where
  "DTQW_one_step num_qubits =
     (let walker_qubits = [0..<num_qubits];
          coin_qubit = num_qubits;
          endpoint_qubit = num_qubits + 1
      in if num_qubits < 4 then Inl IndexError
         else Inr
          [Call ''initial_position'' walker_qubits,
           Gate (H coin_qubit),
           Gate (H coin_qubit),
           Call ''no_INC_at_right_endpoint'' (walker_qubits @ [coin_qubit, endpoint_qubit]),
           Gate (Ctrl ''INC'' coin_qubit
                   [walker_qubits ! 0, walker_qubits ! 1, walker_qubits ! 2, walker_qubits ! 3]),
           Call ''reset_coin_and_endpoint'' [coin_qubit, endpoint_qubit],
           Call ''no_DEC_at_left_endpoint'' (walker_qubits @ [coin_qubit, endpoint_qubit]),
           Gate (X coin_qubit),
           Gate (Ctrl ''DEC'' coin_qubit
                   [walker_qubits ! 0, walker_qubits ! 1, walker_qubits ! 2, walker_qubits ! 3]),
           Gate (X coin_qubit),
           Call ''reset_coin_and_endpoint'' [coin_qubit, endpoint_qubit],
           Mz walker_qubits])"

text \<open>The number of qubits \<open>DTQW_one_step(num_qubits)\<close> allocates.\<close>

definition DTQW_register :: "nat \<Rightarrow> nat" where
  "DTQW_register num_qubits = num_qubits + 2"

text \<open>The qubits a kernel body measures, and the gates among a list of statements.\<close>

fun measured :: "stmt list \<Rightarrow> nat list" where
  "measured [] = []"
| "measured (Mz qs # ss) = qs @ measured ss"
| "measured (_ # ss) = measured ss"

fun gates :: "stmt list \<Rightarrow> gate list" where
  "gates [] = []"
| "gates (Gate g # ss) = g # gates ss"
| "gates (_ # ss) = gates ss"









text \<open>
  The operator the claim about the shift to the left compares with: the decrementer
  matrix on the four walker qubits where the coin bit is 0, the identity where it is 1,
  on the six-qubit register of \<open>DTQW_one_step(4)\<close>. The index of a basis state is
  \<open>4 * w + 2 * c + e\<close> for the walker position \<open>w\<close>, the coin bit \<open>c\<close> and the endpoint
  bit \<open>e\<close>.
\<close>

definition DEC_on_coin_zero :: "matrix \<Rightarrow> state \<Rightarrow> state" where
  "DEC_on_coin_zero M \<psi> =
     map (\<lambda>i. let w = i div 4; c = i div 2 mod 2; e = i mod 2 in
            if c = 0
            then (\<Sum>k\<leftarrow>[0..<16]. complex_of_real (M ! w ! k) * \<psi> ! (4 * k + 2 * c + e))
            else \<psi> ! i)
       [0..<64]"

section \<open>The operator of the walk step\<close>















section \<open>The cells of the notebook\<close>

text \<open>
  What matters of a cell for the binding of names: the expressions its top-level
  statements evaluate, in Python's order of evaluation, and the names they bind.
  Keyword arguments are listed with the positional ones.
\<close>

datatype expr =
    Name string
  | Str string
  | Num int
  | Attr expr string
  | App expr "expr list"

text \<open>
  A \<open>def\<close> evaluates its decorators and annotations when it is executed; the names its
  body reads are looked up only when the function, or the kernel, runs.
\<close>

datatype pystmt =
    Def string "expr list" "string list"
  | Assign string expr
  | Expr expr

type_synonym cell = "pystmt list"

definition license_cell :: cell where
  "license_cell = []"

definition exercise1_cell :: cell where
  "exercise1_cell =
     [Def ''initial_position''
        [Attr (Name ''cudaq'') ''kernel'', Attr (Name ''cudaq'') ''qvector'']
        [''x'', ''h'']]"

definition exercise2_cell :: cell where
  "exercise2_cell =
     [Def ''decrementer'' [] [''np'', ''range''],
      Expr (App (Attr (Name ''cudaq'') ''register_operation'')
              [Str ''DEC'', App (Name ''decrementer'') [Name ''num_qubits'']]),
      Def ''check_decrementer_kernel''
        [Attr (Name ''cudaq'') ''kernel'']
        [''cudaq'', ''x'', ''DEC''],
      Assign ''result''
        (App (Attr (App (Attr (Name ''cudaq'') ''sample'')
                      [Name ''check_decrementer_kernel'', Num 1000])
                ''most_probable'') []),
      Expr (App (Name ''print'')
              [App (Attr (Str ''Decrementer kernel |0001> -> |{}>'') ''format'') [Name ''result'']])]"

definition exercise3_cell :: cell where
  "exercise3_cell =
     [Assign ''num_qubits'' (Num 4),
      Def ''DTQW_one_step''
        [Attr (Name ''cudaq'') ''kernel'', Name ''int'']
        [''cudaq'', ''initial_position'', ''h'', ''no_INC_at_right_endpoint'', ''INC'',
         ''reset_coin_and_endpoint'', ''no_DEC_at_left_endpoint'', ''x'', ''DEC'', ''mz''],
      Assign ''result''
        (App (Attr (Name ''cudaq'') ''sample'')
           [Name ''DTQW_one_step'', Name ''num_qubits'', Num 1000]),
      Expr (App (Name ''print'') [Name ''result'']),
      Expr (App (Name ''plot_results'') [Name ''result'', Name ''num_qubits''])]"

definition notebook :: "cell list" where
  "notebook = [license_cell, exercise1_cell, exercise2_cell, exercise3_cell]"

text \<open>
  The interpreter state: the names bound in the global namespace, the operations
  registered with the framework, and for every function defined so far the names its
  body reads when it runs.
\<close>

record env =
  globals :: "string list"
  registry :: "string list"
  bodies :: "(string \<times> string list) list"

definition initial_env :: "string list \<Rightarrow> env" where
  "initial_env ext = \<lparr>globals = ext, registry = [], bodies = []\<rparr>"

text \<open>The first name of a list that is not bound, if any.\<close>

fun first_unbound :: "string list \<Rightarrow> string list \<Rightarrow> string option" where
  "first_unbound bound [] = None"
| "first_unbound bound (n # ns) = (if n \<in> set bound then first_unbound bound ns else Some n)"

text \<open>
  Running the body of a function defined in the notebook: its names are looked up in
  the global namespace and, inside a kernel, among the registered operations.
\<close>

definition run_body :: "env \<Rightarrow> string \<Rightarrow> py_error option" where
  "run_body E f =
     (case map_of (bodies E) f of
        None \<Rightarrow> None
      | Some names \<Rightarrow>
          (case first_unbound (globals E @ registry E) names of
             None \<Rightarrow> None
           | Some n \<Rightarrow> Some (NameError n)))"

text \<open>
  Evaluation of an expression, for its unbound-name errors only: the callee first, then
  the arguments from left to right, then the call. A call of a function of the
  notebook runs its body; \<open>cudaq.sample(k, ...)\<close> runs the kernel \<open>k\<close>.
\<close>

fun eval :: "env \<Rightarrow> expr \<Rightarrow> py_error option"
  and eval_list :: "env \<Rightarrow> expr list \<Rightarrow> py_error option" where
  "eval E (Name n) = (if n \<in> set (globals E) then None else Some (NameError n))"
| "eval E (Str s) = None"
| "eval E (Num k) = None"
| "eval E (Attr e a) = eval E e"
| "eval E (App f args) =
     (case eval E f of
        Some err \<Rightarrow> Some err
      | None \<Rightarrow>
          (case eval_list E args of
             Some err \<Rightarrow> Some err
           | None \<Rightarrow>
               (case f of
                  Name g \<Rightarrow> run_body E g
                | Attr (Name m) a \<Rightarrow>
                    (if m = ''cudaq'' \<and> a = ''sample''
                     then (case args of Name k # _ \<Rightarrow> run_body E k | _ \<Rightarrow> None)
                     else None)
                | _ \<Rightarrow> None)))"
| "eval_list E [] = None"
| "eval_list E (e # es) = (case eval E e of Some err \<Rightarrow> Some err | None \<Rightarrow> eval_list E es)"

text \<open>The operation name a statement registers, if it is a \<open>cudaq.register_operation\<close>.\<close>

fun registers :: "expr \<Rightarrow> string option" where
  "registers (App (Attr (Name m) a) (Str name # _)) =
     (if m = ''cudaq'' \<and> a = ''register_operation'' then Some name else None)"
| "registers _ = None"

fun exec :: "env \<Rightarrow> pystmt \<Rightarrow> py_error + env" where
  "exec E (Def f at_def body) =
     (case eval_list E at_def of
        Some err \<Rightarrow> Inl err
      | None \<Rightarrow> Inr (E\<lparr>globals := f # globals E, bodies := (f, body) # bodies E\<rparr>))"
| "exec E (Assign v e) =
     (case eval E e of
        Some err \<Rightarrow> Inl err
      | None \<Rightarrow> Inr (E\<lparr>globals := v # globals E\<rparr>))"
| "exec E (Expr e) =
     (case eval E e of
        Some err \<Rightarrow> Inl err
      | None \<Rightarrow>
          (case registers e of
             None \<Rightarrow> Inr E
           | Some name \<Rightarrow> Inr (E\<lparr>registry := name # registry E\<rparr>)))"

fun run_cell :: "env \<Rightarrow> cell \<Rightarrow> py_error + env" where
  "run_cell E [] = Inr E"
| "run_cell E (s # ss) = (case exec E s of Inl err \<Rightarrow> Inl err | Inr E' \<Rightarrow> run_cell E' ss)"

text \<open>
  Running the cells once from top to bottom: the first failure, with the number of the
  cell it happens in (counted from \<open>k\<close>), or the final state.
\<close>

fun run_cells :: "nat \<Rightarrow> env \<Rightarrow> cell list \<Rightarrow> (nat \<times> py_error) + env" where
  "run_cells k E [] = Inr E"
| "run_cells k E (c # cs) =
     (case run_cell E c of Inl err \<Rightarrow> Inl (k, err) | Inr E' \<Rightarrow> run_cells (Suc k) E' cs)"

text \<open>The names a statement reads and the names it binds.\<close>

fun names_of :: "expr \<Rightarrow> string list"
  and names_of_list :: "expr list \<Rightarrow> string list" where
  "names_of (Name n) = [n]"
| "names_of (Str s) = []"
| "names_of (Num k) = []"
| "names_of (Attr e a) = names_of e"
| "names_of (App f args) = names_of f @ names_of_list args"
| "names_of_list [] = []"
| "names_of_list (e # es) = names_of e @ names_of_list es"

fun stmt_reads :: "pystmt \<Rightarrow> string list" where
  "stmt_reads (Def f at_def body) = names_of_list at_def @ body"
| "stmt_reads (Assign v e) = names_of e"
| "stmt_reads (Expr e) = names_of e"

fun stmt_binds :: "pystmt \<Rightarrow> string list" where
  "stmt_binds (Def f at_def body) = [f]"
| "stmt_binds (Assign v e) = [v]"
| "stmt_binds (Expr e) = (case registers e of None \<Rightarrow> [] | Some name \<Rightarrow> [name])"

text \<open>
  The names a cell reads without having bound them itself in an earlier statement.
\<close>

fun free_reads :: "string list \<Rightarrow> cell \<Rightarrow> string list" where
  "free_reads bound [] = []"
| "free_reads bound (s # ss) =
     filter (\<lambda>n. n \<notin> set bound) (stmt_reads s) @ free_reads (stmt_binds s @ bound) ss"

definition cell_reads :: "cell \<Rightarrow> string list" where
  "cell_reads c = free_reads [] c"

definition cell_binds :: "cell \<Rightarrow> string list" where
  "cell_binds c = concat (map stmt_binds c)"

text \<open>
  A cell is independent of the others when it reads no name that another cell binds.
\<close>

definition reads_from :: "cell \<Rightarrow> cell \<Rightarrow> string list" where
  "reads_from c d = filter (\<lambda>n. n \<in> set (cell_binds d)) (cell_reads c)"

text \<open>
  The names the notebook takes from outside: the framework module and its gates, numpy,
  and the builtins.
\<close>

definition framework_bindings :: "string list" where
  "framework_bindings = [''cudaq'', ''np'', ''x'', ''h'', ''mz'', ''range'', ''print'', ''int'']"

section \<open>Properties of the decrementer\<close>

lemma loop_rows:
  "k \<le> sz \<Longrightarrow>
   length (fold (\<lambda>i m. set_entry m i ((i + 1) mod sz) 1) [0..<k] (zeros sz sz)) = sz \<and>
   (\<forall>i<sz. fold (\<lambda>i m. set_entry m i ((i + 1) mod sz) 1) [0..<k] (zeros sz sz) ! i =
      (if i < k then basis_vec sz ((i + 1) mod sz) else replicate sz 0))"
proof (induction k)
  case 0
  show ?case by (simp add: zeros_def)
next
  case (Suc k)
  then have ih: "length (fold (\<lambda>i m. set_entry m i ((i + 1) mod sz) 1) [0..<k] (zeros sz sz)) = sz"
    "\<And>i. i < sz \<Longrightarrow> fold (\<lambda>i m. set_entry m i ((i + 1) mod sz) 1) [0..<k] (zeros sz sz) ! i =
      (if i < k then basis_vec sz ((i + 1) mod sz) else replicate sz 0)"
    by simp_all
  from Suc.prems have k: "k < sz" by simp
  show ?case
    using ih k by (auto simp add: set_entry_def basis_vec_def nth_list_update)
qed

lemma dec_matrix_length: "length (dec_matrix sz) = sz"
  using loop_rows [of sz sz] by (simp add: dec_matrix_def dec_loop_def)

lemma dec_matrix_row: "i < sz \<Longrightarrow> dec_matrix sz ! i = basis_vec sz (succ_mod sz i)"
  using loop_rows [of sz sz] by (simp add: dec_matrix_def dec_loop_def succ_mod_def)

lemma dec_matrix_eq: "dec_matrix sz = map (\<lambda>i. basis_vec sz (succ_mod sz i)) [0..<sz]"
  by (rule nth_equalityI) (simp_all add: dec_matrix_length dec_matrix_row)

lemma basis_vec_length: "length (basis_vec sz c) = sz"
  by (simp add: basis_vec_def)

lemma basis_vec_nth: "i < sz \<Longrightarrow> basis_vec sz c ! i = (if i = c then 1 else 0)"
  by (simp add: basis_vec_def nth_list_update)

lemma count_list_replicate_other: "x \<noteq> y \<Longrightarrow> count_list (replicate n x) y = 0"
  by (induction n) simp_all

lemma count_list_update_one:
  "c < length xs \<Longrightarrow> count_list xs (1::real) = 0 \<Longrightarrow> count_list (xs[c := 1]) 1 = 1"
proof (induction xs arbitrary: c)
  case Nil then show ?case by simp
next
  case (Cons x xs)
  then show ?case by (cases c) (auto split: if_splits)
qed

lemma basis_vec_count: "c < sz \<Longrightarrow> count_list (basis_vec sz c) 1 = 1"
  by (simp add: basis_vec_def count_list_update_one count_list_replicate_other)

lemma succ_mod_if: "i < sz \<Longrightarrow> succ_mod sz i = (if Suc i = sz then 0 else Suc i)"
  by (simp add: succ_mod_def)

lemma pred_mod_if: "j < sz \<Longrightarrow> pred_mod sz j = (if j = 0 then sz - 1 else j - 1)"
proof (cases j)
  case 0
  assume "j < sz"
  then have "(- 1) mod int sz = int sz - 1"
    using 0 by (simp add: zmod_minus1)
  then show ?thesis using 0 by (simp add: pred_mod_def)
next
  case (Suc k)
  assume "j < sz"
  then show ?thesis using Suc by (simp add: pred_mod_def)
qed

lemma succ_pred_mod: "i < sz \<Longrightarrow> j < sz \<Longrightarrow> j = succ_mod sz i \<longleftrightarrow> i = pred_mod sz j"
  by (auto simp add: succ_mod_if pred_mod_if)

lemma pred_mod_less: "0 < sz \<Longrightarrow> pred_mod sz j < sz"
  by (simp add: pred_mod_def nat_less_iff)

lemma succ_mod_less: "0 < sz \<Longrightarrow> succ_mod sz j < sz"
  by (simp add: succ_mod_def)

lemma dot_update:
  "c < length v \<Longrightarrow> length u = length v \<Longrightarrow>
   dot (u[c := a]) v = dot u v + (a - u ! c) * v ! c"
proof (induction u v arbitrary: c rule: list_induct2')
  case (4 x xs y ys)
  then show ?case by (cases c) (auto simp add: dot_def algebra_simps)
qed (simp_all add: dot_def)

lemma dot_zero_left: "dot (replicate n 0) v = 0"
proof (induction n arbitrary: v)
  case (Suc n) then show ?case by (cases v) (simp_all add: dot_def)
qed (simp add: dot_def)

lemma dot_basis_left: "c < sz \<Longrightarrow> length v = sz \<Longrightarrow> dot (basis_vec sz c) v = v ! c"
  by (simp add: basis_vec_def dot_update dot_zero_left)

lemma dec_matrix_column: "j < sz \<Longrightarrow> column (dec_matrix sz) j = basis_vec sz (pred_mod sz j)"
proof (rule nth_equalityI)
  show "length (column (dec_matrix sz) j) = length (basis_vec sz (pred_mod sz j))"
    by (simp add: column_def dec_matrix_length basis_vec_length)
next
  fix i assume j: "j < sz" and "i < length (column (dec_matrix sz) j)"
  then have i: "i < sz" by (simp add: column_def dec_matrix_length)
  have "column (dec_matrix sz) j ! i = (if j = succ_mod sz i then 1 else 0)"
    using i j by (simp add: column_def dec_matrix_length dec_matrix_row basis_vec_nth)
  also have "\<dots> = (if i = pred_mod sz j then 1 else 0)"
    using succ_pred_mod [OF i j] by simp
  also have "\<dots> = basis_vec sz (pred_mod sz j) ! i"
    using i by (simp add: basis_vec_nth)
  finally show "column (dec_matrix sz) j ! i = basis_vec sz (pred_mod sz j) ! i" .
qed

lemma dec_matrix_mat_vec:
  assumes "j < sz"
  shows "mat_vec (dec_matrix sz) (basis_vec sz j) = basis_vec sz (pred_mod sz j)"
proof (rule nth_equalityI)
  show "length (mat_vec (dec_matrix sz) (basis_vec sz j)) = length (basis_vec sz (pred_mod sz j))"
    by (simp add: mat_vec_def dec_matrix_length basis_vec_length)
next
  fix i assume "i < length (mat_vec (dec_matrix sz) (basis_vec sz j))"
  then have i: "i < sz" by (simp add: mat_vec_def dec_matrix_length)
  then have s: "succ_mod sz i < sz" by (simp add: succ_mod_def)
  have "mat_vec (dec_matrix sz) (basis_vec sz j) ! i = basis_vec sz j ! succ_mod sz i"
    using i s by (simp add: mat_vec_def dec_matrix_length dec_matrix_row dot_basis_left basis_vec_length)
  also have "\<dots> = (if j = succ_mod sz i then 1 else 0)"
    using s by (auto simp add: basis_vec_nth)
  also have "\<dots> = (if i = pred_mod sz j then 1 else 0)"
    using succ_pred_mod [OF i assms] by simp
  also have "\<dots> = basis_vec sz (pred_mod sz j) ! i"
    using i by (simp add: basis_vec_nth)
  finally show "mat_vec (dec_matrix sz) (basis_vec sz j) ! i = basis_vec sz (pred_mod sz j) ! i" .
qed

lemma decrementer_fits:
  assumes "0 \<le> n" and "array_fits mc (2 ^ nat n) (2 ^ nat n)"
  shows "decrementer mc n = Inr (dec_matrix (2 ^ nat n))"
  using assms
  by (simp add: decrementer_def np_zeros_def array_fits_def dec_matrix_def Let_def not_less [symmetric])

text \<open>
  Claim C1, as stated, fails: on a 64-bit machine with 16 GiB of memory
  \<open>decrementer(64)\<close> returns no matrix, \<open>np.zeros\<close> raises a value error.
\<close>

theorem decrementer_64_raises:
  "decrementer (machine64 (2 ^ 34)) 64 = Inl ValueError"
  by (simp add: decrementer_def np_zeros_def machine64_def Let_def)

text \<open>
  Claim C1, amended. For every integer \<open>n \<ge> 0\<close> for which the array of \<open>2^n\<close> by \<open>2^n\<close>
  float64 entries fits (its size in bytes is within what numpy can address and what
  can be allocated), \<open>decrementer(n)\<close> returns a matrix with \<open>2^n\<close> rows of \<open>2^n\<close>
  entries, every entry is 0 or 1, every row and every column holds exactly one 1, and
  the matrix times the basis vector of index \<open>i\<close> is the basis vector of index
  \<open>(i - 1) mod 2^n\<close>.
\<close>

theorem decrementer_cyclic_permutation:
  assumes "0 \<le> n" and "array_fits mc (2 ^ nat n) (2 ^ nat n)"
  shows "\<exists>M. decrementer mc n = Inr M \<and> length M = 2 ^ nat n \<and>
           (\<forall>i<2 ^ nat n. length (M ! i) = 2 ^ nat n) \<and>
           (\<forall>i<2 ^ nat n. \<forall>j<2 ^ nat n. M ! i ! j = 0 \<or> M ! i ! j = 1) \<and>
           (\<forall>i<2 ^ nat n. count_list (M ! i) 1 = 1) \<and>
           (\<forall>j<2 ^ nat n. count_list (column M j) 1 = 1) \<and>
           (\<forall>i<2 ^ nat n. mat_vec M (basis_vec (2 ^ nat n) i) =
                basis_vec (2 ^ nat n) (pred_mod (2 ^ nat n) i))"
proof -
  define sz :: nat where "sz = 2 ^ nat n"
  have pos: "0 < sz" by (simp add: sz_def)
  have ret: "decrementer mc n = Inr (dec_matrix sz)"
    unfolding sz_def using assms by (rule decrementer_fits)
  have rows: "\<forall>i<sz. length (dec_matrix sz ! i) = sz"
    by (simp add: dec_matrix_row basis_vec_length)
  have entries: "\<forall>i<sz. \<forall>j<sz. dec_matrix sz ! i ! j = 0 \<or> dec_matrix sz ! i ! j = 1"
    by (simp add: dec_matrix_row basis_vec_nth)
  have row_one: "\<forall>i<sz. count_list (dec_matrix sz ! i) 1 = 1"
    using pos by (simp add: dec_matrix_row basis_vec_count succ_mod_less)
  have col_one: "\<forall>j<sz. count_list (column (dec_matrix sz) j) 1 = 1"
    using pos by (simp add: dec_matrix_column basis_vec_count pred_mod_less)
  have act: "\<forall>i<sz. mat_vec (dec_matrix sz) (basis_vec sz i) = basis_vec sz (pred_mod sz i)"
    by (simp add: dec_matrix_mat_vec)
  from ret rows entries row_one col_one act show ?thesis
    unfolding sz_def [symmetric] by (simp add: dec_matrix_length)
qed

theorem decrementer_cyclic_permutation_witness:
  "(0::int) \<le> 2 \<and> array_fits (machine64 (2 ^ 34)) 4 4 \<and>
   (\<exists>M. decrementer (machine64 (2 ^ 34)) 2 = Inr M \<and> length M = 4 \<and>
      (\<forall>i<4. length (M ! i) = 4) \<and>
      (\<forall>i<4. \<forall>j<4. M ! i ! j = 0 \<or> M ! i ! j = 1) \<and>
      (\<forall>i<4. count_list (M ! i) 1 = 1) \<and>
      (\<forall>j<4. count_list (column M j) 1 = 1) \<and>
      (\<forall>i<4. mat_vec M (basis_vec 4 i) = basis_vec 4 (pred_mod 4 i)))"
proof -
  have f: "array_fits (machine64 (2 ^ 34)) 4 4"
    by (simp add: array_fits_def machine64_def)
  show ?thesis
    using f decrementer_cyclic_permutation [of 2 "machine64 (2 ^ 34)"] by simp
qed

lemma ncols_dec_matrix: "ncols (dec_matrix sz) = sz"
proof (cases sz)
  case 0 then show ?thesis by (simp add: ncols_def dec_matrix_def dec_loop_def zeros_def)
next
  case (Suc k)
  then have "0 < sz" by simp
  have len: "length (dec_matrix sz) = sz" by (rule dec_matrix_length)
  then obtain r rs where rr: "dec_matrix sz = r # rs" using Suc by (cases "dec_matrix sz") auto
  then have "r = dec_matrix sz ! 0" by simp
  also have "\<dots> = basis_vec sz (succ_mod sz 0)" using \<open>0 < sz\<close> by (rule dec_matrix_row)
  finally show ?thesis using rr by (simp add: ncols_def basis_vec_length)
qed

lemma transpose_dec_matrix:
  "transpose_mat (dec_matrix sz) = map (\<lambda>j. basis_vec sz (pred_mod sz j)) [0..<sz]"
  by (simp add: transpose_mat_def ncols_dec_matrix dec_matrix_column)

lemma pred_mod_inj: "i < sz \<Longrightarrow> j < sz \<Longrightarrow> pred_mod sz i = pred_mod sz j \<longleftrightarrow> i = j"
  by (auto simp add: pred_mod_if split: if_splits)

lemma transpose_dec_mul:
  "mat_mul (transpose_mat (dec_matrix sz)) (dec_matrix sz) = identity_mat sz"
proof -
  have "\<And>i j. i < sz \<Longrightarrow> j < sz \<Longrightarrow>
      dot (basis_vec sz (pred_mod sz i)) (basis_vec sz (pred_mod sz j)) = basis_vec sz i ! j"
  proof -
    fix i j assume i: "i < sz" and j: "j < sz"
    then have p: "pred_mod sz i < sz" by (simp add: pred_mod_less)
    show "dot (basis_vec sz (pred_mod sz i)) (basis_vec sz (pred_mod sz j)) = basis_vec sz i ! j"
      using i j p pred_mod_inj [OF i j]
      by (auto simp add: dot_basis_left basis_vec_length basis_vec_nth)
  qed
  then show ?thesis
    unfolding mat_mul_def transpose_dec_matrix identity_mat_def ncols_dec_matrix
    by (auto intro!: nth_equalityI simp add: dec_matrix_column basis_vec_length)
qed

lemma succ_mod_inj: "i < sz \<Longrightarrow> j < sz \<Longrightarrow> succ_mod sz i = succ_mod sz j \<longleftrightarrow> i = j"
  by (auto simp add: succ_mod_if split: if_splits)

lemma ncols_transpose_dec: "ncols (transpose_mat (dec_matrix sz)) = sz"
  by (cases sz) (simp_all add: transpose_dec_matrix ncols_def upt_conv_Cons basis_vec_length del: upt_Suc)

lemma column_transpose_dec:
  assumes "j < sz"
  shows "column (transpose_mat (dec_matrix sz)) j = basis_vec sz (succ_mod sz j)"
proof (rule nth_equalityI)
  show "length (column (transpose_mat (dec_matrix sz)) j) = length (basis_vec sz (succ_mod sz j))"
    by (simp add: column_def transpose_dec_matrix basis_vec_length)
next
  fix k assume "k < length (column (transpose_mat (dec_matrix sz)) j)"
  then have k: "k < sz" by (simp add: column_def transpose_dec_matrix)
  have "column (transpose_mat (dec_matrix sz)) j ! k = (if j = pred_mod sz k then 1 else 0)"
    using k assms by (simp add: column_def transpose_dec_matrix basis_vec_nth)
  also have "\<dots> = (if k = succ_mod sz j then 1 else 0)"
    using succ_pred_mod [OF assms k] by simp
  also have "\<dots> = basis_vec sz (succ_mod sz j) ! k"
    using k by (simp add: basis_vec_nth)
  finally show "column (transpose_mat (dec_matrix sz)) j ! k = basis_vec sz (succ_mod sz j) ! k" .
qed

lemma dec_mul_transpose:
  "mat_mul (dec_matrix sz) (transpose_mat (dec_matrix sz)) = identity_mat sz"
proof -
  have "\<And>i j. i < sz \<Longrightarrow> j < sz \<Longrightarrow>
      dot (basis_vec sz (succ_mod sz i)) (basis_vec sz (succ_mod sz j)) = basis_vec sz i ! j"
  proof -
    fix i j assume i: "i < sz" and j: "j < sz"
    then have p: "succ_mod sz i < sz" by (simp add: succ_mod_less)
    show "dot (basis_vec sz (succ_mod sz i)) (basis_vec sz (succ_mod sz j)) = basis_vec sz i ! j"
      using i j p succ_mod_inj [OF i j]
      by (auto simp add: dot_basis_left basis_vec_length basis_vec_nth)
  qed
  then show ?thesis
    unfolding mat_mul_def identity_mat_def ncols_transpose_dec
    by (auto intro!: nth_equalityI
             simp add: dec_matrix_length dec_matrix_row column_transpose_dec basis_vec_length)
qed

lemma transpose_dec_mat_vec:
  assumes "i < sz"
  shows "mat_vec (transpose_mat (dec_matrix sz)) (basis_vec sz i) = basis_vec sz (succ_mod sz i)"
proof (rule nth_equalityI)
  show "length (mat_vec (transpose_mat (dec_matrix sz)) (basis_vec sz i)) =
        length (basis_vec sz (succ_mod sz i))"
    by (simp add: mat_vec_def transpose_dec_matrix basis_vec_length)
next
  fix k assume "k < length (mat_vec (transpose_mat (dec_matrix sz)) (basis_vec sz i))"
  then have k: "k < sz" by (simp add: mat_vec_def transpose_dec_matrix)
  then have p: "pred_mod sz k < sz" by (simp add: pred_mod_less)
  have "mat_vec (transpose_mat (dec_matrix sz)) (basis_vec sz i) ! k = basis_vec sz i ! pred_mod sz k"
    using k p by (simp add: mat_vec_def transpose_dec_matrix dot_basis_left basis_vec_length)
  also have "\<dots> = (if i = pred_mod sz k then 1 else 0)"
    using p by (auto simp add: basis_vec_nth)
  also have "\<dots> = (if k = succ_mod sz i then 1 else 0)"
    using succ_pred_mod [OF assms k] by simp
  also have "\<dots> = basis_vec sz (succ_mod sz i) ! k"
    using k by (simp add: basis_vec_nth)
  finally show "mat_vec (transpose_mat (dec_matrix sz)) (basis_vec sz i) ! k =
                basis_vec sz (succ_mod sz i) ! k" .
qed

lemma operation_matrix_dec:
  assumes "1 \<le> N"
  shows "operation_matrix (dec_matrix (2 ^ N))"
proof -
  have "N < 2 ^ N" by (rule less_exp)
  then have "N \<in> {1..length (dec_matrix (2 ^ N))}"
    using assms by (simp add: dec_matrix_length)
  then have p: "\<exists>K\<in>{1..length (dec_matrix (2 ^ N))}. length (dec_matrix (2 ^ N)) = 2 ^ K"
    by (rule bexI [rotated]) (simp add: dec_matrix_length)
  have r: "list_all (\<lambda>row. length row = length (dec_matrix (2 ^ N))) (dec_matrix (2 ^ N))"
    by (simp add: list_all_length dec_matrix_length dec_matrix_row basis_vec_length)
  from p r show ?thesis by (simp add: operation_matrix_def)
qed

lemma register_dec:
  "1 \<le> N \<Longrightarrow>
   register_operation name (dec_matrix (2 ^ N)) ops = Inr (ops(name \<mapsto> dec_matrix (2 ^ N)))"
  by (simp add: register_operation_def operation_matrix_dec)

lemma dec_matrix_1: "dec_matrix 1 = [[1]]"
  by (simp add: dec_matrix_def dec_loop_def zeros_def set_entry_def)

text \<open>
  Claim C10, as stated, fails: on a 64-bit machine with 16 GiB of memory
  \<open>decrementer(31)\<close> returns no matrix, and \<open>decrementer(0)\<close> returns the matrix with the
  single entry 1, which the framework does not register as a gate.
\<close>

theorem decrementer_31_raises_and_0_not_registered:
  "decrementer (machine64 (2 ^ 34)) 31 = Inl ValueError \<and>
   decrementer (machine64 (2 ^ 34)) 0 = Inr [[1]] \<and>
   register_operation ''DEC'' [[1]] Map.empty = Inl FrameworkError"
proof -
  have a: "decrementer (machine64 (2 ^ 34)) 31 = Inl ValueError"
    by (simp add: decrementer_def np_zeros_def machine64_def Let_def)
  have b: "decrementer (machine64 (2 ^ 34)) 0 = Inr [[1]]"
    by (simp add: decrementer_def np_zeros_def machine64_def Let_def dec_loop_def zeros_def
          set_entry_def)
  have c: "register_operation ''DEC'' [[1]] Map.empty = Inl FrameworkError"
    by (simp add: register_operation_def operation_matrix_def)
  from a b c show ?thesis by simp
qed

text \<open>
  Claim C10, amended. For every integer \<open>n \<ge> 0\<close> for which the array of \<open>2^n\<close> by \<open>2^n\<close>
  float64 entries fits, the transpose of \<open>decrementer(n)\<close> is its inverse: the transpose
  times the matrix is the identity of size \<open>2^n\<close> (and so is the matrix times its
  transpose), and the transpose maps the basis vector of index \<open>i\<close> to the basis vector
  of index \<open>(i + 1) mod 2^n\<close>. For \<open>n \<ge> 1\<close> the framework registers the matrix, so the
  registered DEC gate is this real orthogonal matrix.
\<close>

theorem decrementer_transpose_inverse:
  assumes "0 \<le> n" and "array_fits mc (2 ^ nat n) (2 ^ nat n)"
  shows "\<exists>M. decrementer mc n = Inr M \<and>
           mat_mul (transpose_mat M) M = identity_mat (2 ^ nat n) \<and>
           mat_mul M (transpose_mat M) = identity_mat (2 ^ nat n) \<and>
           (\<forall>i<2 ^ nat n. mat_vec (transpose_mat M) (basis_vec (2 ^ nat n) i) =
                basis_vec (2 ^ nat n) ((i + 1) mod 2 ^ nat n)) \<and>
           (1 \<le> n \<longrightarrow> register_operation ''DEC'' M ops = Inr (ops(''DEC'' \<mapsto> M)))"
proof -
  have d: "decrementer mc n = Inr (dec_matrix (2 ^ nat n))"
    using assms by (rule decrementer_fits)
  have r: "1 \<le> n \<longrightarrow>
      register_operation ''DEC'' (dec_matrix (2 ^ nat n)) ops =
        Inr (ops(''DEC'' \<mapsto> dec_matrix (2 ^ nat n)))"
    by (simp add: register_dec)
  from d r show ?thesis
    by (simp add: transpose_dec_mul dec_mul_transpose transpose_dec_mat_vec succ_mod_def)
qed

theorem decrementer_transpose_inverse_witness:
  "(0::int) \<le> 2 \<and> array_fits (machine64 (2 ^ 34)) 4 4 \<and> (1::int) \<le> 2 \<and>
   (\<exists>M. decrementer (machine64 (2 ^ 34)) 2 = Inr M \<and>
      mat_mul (transpose_mat M) M = identity_mat 4 \<and>
      mat_mul M (transpose_mat M) = identity_mat 4 \<and>
      (\<forall>i<4. mat_vec (transpose_mat M) (basis_vec 4 i) = basis_vec 4 ((i + 1) mod 4)) \<and>
      register_operation ''DEC'' M Map.empty = Inr [''DEC'' \<mapsto> M])"
proof -
  have f: "array_fits (machine64 (2 ^ 34)) 4 4"
    by (simp add: array_fits_def machine64_def)
  show ?thesis
    using f decrementer_transpose_inverse [of 2 "machine64 (2 ^ 34)" Map.empty] by simp
qed

section \<open>Basis states and their indices\<close>

lemma bits_of_numeral:
  "bits_of (numeral k) i = odd (i div 2 ^ pred_numeral k) # bits_of (pred_numeral k) i"
  by (simp add: numeral_eq_Suc)

lemma length_bits_of: "length (bits_of n i) = n"
  by (induction n) simp_all

lemma index_of_less: "index_of bs < 2 ^ length bs"
  by (induction bs) simp_all

lemma index_of_bits_of: "index_of (bits_of n i) = i mod 2 ^ n"
proof (induction n)
  case 0 show ?case by simp
next
  case (Suc n)
  have "i mod (2 ^ n * 2) = 2 ^ n * (i div 2 ^ n mod 2) + i mod 2 ^ n"
    by (rule mod_mult2_eq)
  then have "i mod 2 ^ Suc n = (i div 2 ^ n mod 2) * 2 ^ n + i mod 2 ^ n"
    by (simp add: mult.commute)
  then show ?case using Suc by (auto simp add: length_bits_of odd_iff_mod_2_eq_one)
qed

lemma bits_of_add_multiple: "bits_of n (i + 2 ^ n * c) = bits_of n i"
proof (induction n arbitrary: c)
  case 0 show ?case by simp
next
  case (Suc n)
  have "(i + 2 ^ n * (2 * c)) div 2 ^ n = 2 * c + i div 2 ^ n"
    by (rule div_mult_self2) simp
  then have "(i + 2 ^ Suc n * c) div 2 ^ n = i div 2 ^ n + 2 * c"
    by (simp add: ac_simps)
  moreover have "bits_of n (i + 2 ^ Suc n * c) = bits_of n i"
    using Suc [of "2 * c"] by (simp add: ac_simps)
  ultimately show ?case by simp
qed

lemma bits_of_index_of: "length bs = n \<Longrightarrow> bits_of n (index_of bs) = bs"
proof (induction bs arbitrary: n)
  case Nil then show ?case by simp
next
  case (Cons b bs)
  then obtain m where n: "n = Suc m" and m: "length bs = m" by (cases n) auto
  have lt: "index_of bs < 2 ^ m" using index_of_less [of bs] m by simp
  have "bits_of m (index_of (b # bs)) = bits_of m (index_of bs)"
    using bits_of_add_multiple [of m "index_of bs" 1] m
    by (cases b) (simp_all add: ac_simps)
  then have tl: "bits_of m (index_of (b # bs)) = bs"
    using Cons.IH [OF m] by simp
  show ?case using lt m tl by (simp add: n)
qed

lemma index_of_inj:
  "length xs = length ys \<Longrightarrow> index_of xs = index_of ys \<Longrightarrow> xs = ys"
  by (metis bits_of_index_of)

lemma bits_of_inj: "i < 2 ^ n \<Longrightarrow> j < 2 ^ n \<Longrightarrow> bits_of n i = bits_of n j \<Longrightarrow> i = j"
  by (metis index_of_bits_of mod_less)

lemma length_flip: "length (flip q bs) = length bs"
  by (simp add: flip_def)

lemma length_put_bits: "length (put_bits ts vs bs) = length bs"
  by (induction ts vs bs rule: put_bits.induct) simp_all

lemma flip_flip: "flip q (flip q bs) = bs"
proof (cases "q < length bs")
  case True
  then show ?thesis by (simp add: flip_def list_update_same_conv)
next
  case False
  then have "length bs \<le> q" by simp
  then show ?thesis by (simp add: flip_def list_update_beyond)
qed

lemma ket_map: "ket n i = map (\<lambda>j. if j = i then 1 else 0) [0..<2 ^ n]"
  by (simp add: ket_def list_eq_iff_nth_eq nth_list_update)


lemma basis_vec_map: "basis_vec sz c = map (\<lambda>j. if j = c then 1 else 0) [0..<sz]"
  by (simp add: basis_vec_def list_eq_iff_nth_eq nth_list_update)

section \<open>Exercise 1\<close>

text \<open>
  Claim C4. \<open>initial_position\<close> applies exactly two gates, X on the qubit at index 2 and
  then H on the qubit at index 3, and from \<open>|0000>\<close> the resulting state has amplitude
  \<open>1 / sqrt 2\<close> on the basis states \<open>|0010>\<close> and \<open>|0011>\<close> and amplitude 0 on every
  other basis state.
\<close>

theorem initial_position_superposition:
  "initial_position = [X 2, H 3] \<and>
   run_gates Map.empty 4 initial_position (ket 4 0) =
     Some (map (\<lambda>i. if i = index_of [False, False, True, False] \<or>
                       i = index_of [False, False, True, True]
                    then 1 / complex_of_real (sqrt 2) else 0) [0..<16])"
  by (simp add: initial_position_def apply_gate_def apply_x_def apply_h_def ket_map flip_def
        bits_of_numeral upt_conv_Cons del: upt_Suc)

section \<open>Exercise 2\<close>

lemma decrementer_4:
  "array_fits mc 16 16 \<Longrightarrow> decrementer mc 4 = Inr (dec_matrix 16)"
  using decrementer_fits [of 4 mc] by simp

lemma register_dec_16:
  "register_operation name (dec_matrix 16) ops = Inr (ops(name \<mapsto> dec_matrix 16))"
  using register_dec [of 4 name ops] by simp

lemma check_decrementer_state:
  "run_gates [''DEC'' \<mapsto> dec_matrix 16] 4 check_decrementer_kernel (ket 4 0) = Some (ket 4 0)"
  by (simp add: check_decrementer_kernel_def apply_gate_def valid_targets_def
        dec_matrix_length apply_x_def apply_custom_def get_bits_def dec_matrix_row basis_vec_map succ_mod_def
        ket_map flip_def bits_of_numeral upt_conv_Cons del: upt_Suc)

lemma x3_state: "run_gates ops 4 [X 3] (ket 4 0) = Some (ket 4 1)"
  by (simp add: apply_gate_def apply_x_def ket_map flip_def bits_of_numeral upt_conv_Cons del: upt_Suc)

lemma possible_shot_ket: "i0 < 2 ^ n \<Longrightarrow> possible_shot (ket n i0) i \<longleftrightarrow> i = i0"
  by (auto simp add: possible_shot_def probabilities_def ket_map split: if_splits)

lemma remdups_replicate_aux: "remdups (replicate (Suc n) k) = [k]"
  by (induction n) simp_all

lemma counts_replicate: "0 < n \<Longrightarrow> counts (replicate n k) = [(k, n)]"
proof -
  assume "0 < n"
  then obtain m where "n = Suc m" by (cases n) auto
  then have "remdups (replicate n k) = [k]" by (simp only: remdups_replicate_aux)
  moreover have "count_list (replicate n k) k = n" by (induction n) simp_all
  ultimately show ?thesis by (simp add: counts_def)
qed

lemma mz_0000: "mz 4 [0, 1, 2, 3] 0 = ''0000''"
  by (simp add: mz_def bitstring_def get_bits_def bits_of_numeral)

text \<open>
  Claim C2. \<open>decrementer(4)\<close> (a matrix of 2048 bytes, returned wherever that array
  fits) times the basis vector \<open>e_1\<close> is \<open>e_0\<close>; the framework registers it as DEC; the kernel
  \<open>check_decrementer_kernel\<close> prepares \<open>|0001>\<close> (index 1) and leaves the register in
  \<open>|0000>\<close> (index 0), so every shot of a noiseless simulation records \<open>0000\<close> and the
  most probable result of 1000 shots is \<open>0000\<close>.
\<close>

theorem check_decrementer_gives_0000:
  assumes "length draws = 1000"
    and "list_all (possible_shot (ket 4 0)) draws"
  shows "(array_fits mc 16 16 \<longrightarrow> decrementer mc 4 = Inr (dec_matrix 16)) \<and>
         mat_vec (dec_matrix 16) (basis_vec 16 1) = basis_vec 16 0 \<and>
         register_operation ''DEC'' (dec_matrix 16) Map.empty = Inr [''DEC'' \<mapsto> dec_matrix 16] \<and>
         run_gates [''DEC'' \<mapsto> dec_matrix 16] 4 [X 3] (ket 4 0) = Some (ket 4 1) \<and>
         run_gates [''DEC'' \<mapsto> dec_matrix 16] check_decrementer_qubits
             check_decrementer_kernel (ket 4 0) = Some (ket 4 0) \<and>
         sample check_decrementer_qubits [0, 1, 2, 3] draws = [(''0000'', 1000)] \<and>
         most_probable (sample check_decrementer_qubits [0, 1, 2, 3] draws) = Some ''0000''"
proof -
  have d: "array_fits mc 16 16 \<longrightarrow> decrementer mc 4 = Inr (dec_matrix 16)"
    by (simp add: decrementer_4)
  have g: "register_operation ''DEC'' (dec_matrix 16) Map.empty = Inr [''DEC'' \<mapsto> dec_matrix 16]"
    by (rule register_dec_16)
  have m: "mat_vec (dec_matrix 16) (basis_vec 16 1) = basis_vec 16 0"
    by (simp add: dec_matrix_mat_vec pred_mod_def)
  have "\<forall>i\<in>set draws. i = 0"
    using assms(2) possible_shot_ket [of 0 4] by (simp add: list_all_iff)
  then have "draws = replicate (length draws) 0"
    by (simp add: replicate_length_same)
  then have "draws = replicate 1000 0"
    using assms(1) by simp
  then have "map (mz 4 [0, 1, 2, 3]) draws = replicate 1000 ''0000''"
    using mz_0000 by simp
  then have s: "sample 4 [0, 1, 2, 3] draws = [(''0000'', 1000)]"
    by (simp add: sample_def counts_replicate)
  then have p: "most_probable (sample 4 [0, 1, 2, 3] draws) = Some ''0000''"
    by (simp add: most_probable_def)
  have x: "run_gates [''DEC'' \<mapsto> dec_matrix 16] 4 [X 3] (ket 4 0) = Some (ket 4 1)"
    by (rule x3_state)
  have c: "run_gates [''DEC'' \<mapsto> dec_matrix 16] 4 check_decrementer_kernel (ket 4 0) =
      Some (ket 4 0)"
    by (rule check_decrementer_state)
  show ?thesis
    unfolding check_decrementer_qubits_def using d m g x c s p by blast
qed

theorem check_decrementer_gives_0000_witness:
  "length (replicate 1000 (0::nat)) = 1000 \<and>
   list_all (possible_shot (ket 4 0)) (replicate 1000 0) \<and>
   array_fits (machine64 (2 ^ 34)) 16 16 \<and>
   decrementer (machine64 (2 ^ 34)) 4 = Inr (dec_matrix 16) \<and>
   mat_vec (dec_matrix 16) (basis_vec 16 1) = basis_vec 16 0 \<and>
   most_probable (sample check_decrementer_qubits [0, 1, 2, 3] (replicate 1000 0)) = Some ''0000''"
proof -
  have l: "length (replicate 1000 (0::nat)) = 1000" by simp
  have p: "list_all (possible_shot (ket 4 0)) (replicate 1000 0)"
    by (simp add: possible_shot_ket list_all_iff)
  have f: "array_fits (machine64 (2 ^ 34)) 16 16"
    by (simp add: array_fits_def machine64_def)
  have r: "decrementer (machine64 (2 ^ 34)) 4 = Inr (dec_matrix 16) \<and>
      mat_vec (dec_matrix 16) (basis_vec 16 1) = basis_vec 16 0 \<and>
      most_probable (sample check_decrementer_qubits [0, 1, 2, 3] (replicate 1000 0)) = Some ''0000''"
    using f check_decrementer_gives_0000 [OF l p, of "machine64 (2 ^ 34)"] by blast
  show ?thesis
    using l p f r by blast
qed

section \<open>Exercise 3\<close>

text \<open>
  Claim C5. In \<open>DTQW_one_step\<close>, after the preparation of the walker and of the coin,
  the statements of one walk step come in this order: the coin operation H on the coin
  qubit, the guard of the right endpoint, the INC controlled by the coin, the reset of
  coin and endpoint, the guard of the left endpoint, the DEC controlled by the coin
  between two X on the coin, the second reset of coin and endpoint, and last the
  measurement of the walker qubits, which is the only measurement.
\<close>

theorem DTQW_one_step_order:
  assumes "4 \<le> n"
  shows "\<exists>body. DTQW_one_step n = Inr body \<and>
           take 2 body = [Call ''initial_position'' [0..<n], Gate (H n)] \<and>
           drop 2 body =
             [Gate (H n),
              Call ''no_INC_at_right_endpoint'' ([0..<n] @ [n, n + 1]),
              Gate (Ctrl ''INC'' n [0, 1, 2, 3]),
              Call ''reset_coin_and_endpoint'' [n, n + 1],
              Call ''no_DEC_at_left_endpoint'' ([0..<n] @ [n, n + 1]),
              Gate (X n),
              Gate (Ctrl ''DEC'' n [0, 1, 2, 3]),
              Gate (X n),
              Call ''reset_coin_and_endpoint'' [n, n + 1],
              Mz [0..<n]] \<and>
           last body = Mz [0..<n] \<and>
           measured (butlast body) = []"
  using assms by (simp add: DTQW_one_step_def Let_def)

theorem DTQW_one_step_order_witness:
  "(4::nat) \<le> 4 \<and>
   (\<exists>body. DTQW_one_step 4 = Inr body \<and>
      drop 2 body =
        [Gate (H 4),
         Call ''no_INC_at_right_endpoint'' [0, 1, 2, 3, 4, 5],
         Gate (Ctrl ''INC'' 4 [0, 1, 2, 3]),
         Call ''reset_coin_and_endpoint'' [4, 5],
         Call ''no_DEC_at_left_endpoint'' [0, 1, 2, 3, 4, 5],
         Gate (X 4),
         Gate (Ctrl ''DEC'' 4 [0, 1, 2, 3]),
         Gate (X 4),
         Call ''reset_coin_and_endpoint'' [4, 5],
         Mz [0, 1, 2, 3]] \<and>
      last body = Mz [0, 1, 2, 3])"
proof -
  have h: "(4::nat) \<le> 4" by simp
  have u: "[0..<4] = [0, 1, 2, 3]" by (simp add: upt_conv_Cons del: upt_Suc)
  from DTQW_one_step_order [OF h] obtain body where
    "DTQW_one_step 4 = Inr body"
    "drop 2 body =
             [Gate (H 4),
              Call ''no_INC_at_right_endpoint'' ([0..<4] @ [4, 4 + 1]),
              Gate (Ctrl ''INC'' 4 [0, 1, 2, 3]),
              Call ''reset_coin_and_endpoint'' [4, 4 + 1],
              Call ''no_DEC_at_left_endpoint'' ([0..<4] @ [4, 4 + 1]),
              Gate (X 4),
              Gate (Ctrl ''DEC'' 4 [0, 1, 2, 3]),
              Gate (X 4),
              Call ''reset_coin_and_endpoint'' [4, 4 + 1],
              Mz [0..<4]]"
    "last body = Mz [0..<4]"
    by blast
  then show ?thesis unfolding u by auto
qed

section \<open>The order of the cells\<close>

lemmas cell_defs =
  notebook_def license_cell_def exercise1_cell_def exercise2_cell_def exercise3_cell_def

text \<open>
  Claim C8. When the cells run once from top to bottom with the framework's names
  bound, the Exercise 2 cell fails with an unbound name at
  \<open>cudaq.register_operation("DEC", decrementer(num_qubits))\<close>: \<open>num_qubits\<close> is read
  there and is bound only by the Exercise 3 cell, so DEC is never registered.
\<close>

theorem exercise2_num_qubits_unbound:
  assumes "''cudaq'' \<in> set ext" and "''num_qubits'' \<notin> set ext"
  shows "run_cells 0 (initial_env ext) notebook = Inl (2, NameError ''num_qubits'') \<and>
         (\<exists>E E'. run_cells 0 (initial_env ext) [license_cell, exercise1_cell] = Inr E \<and>
            exec E (exercise2_cell ! 0) = Inr E' \<and>
            exercise2_cell ! 1 =
              Expr (App (Attr (Name ''cudaq'') ''register_operation'')
                      [Str ''DEC'', App (Name ''decrementer'') [Name ''num_qubits'']]) \<and>
            exec E' (exercise2_cell ! 1) = Inl (NameError ''num_qubits'') \<and>
            ''DEC'' \<notin> set (registry E')) \<and>
         ''num_qubits'' \<notin> set (cell_binds license_cell @ cell_binds exercise1_cell @
                                 cell_binds exercise2_cell) \<and>
         ''num_qubits'' \<in> set (cell_binds exercise3_cell)"
  using assms by (simp add: cell_defs initial_env_def run_body_def cell_binds_def)

theorem exercise2_num_qubits_unbound_witness:
  "''cudaq'' \<in> set framework_bindings \<and> ''num_qubits'' \<notin> set framework_bindings \<and>
   run_cells 0 (initial_env framework_bindings) notebook = Inl (2, NameError ''num_qubits'')"
proof -
  have a: "''cudaq'' \<in> set framework_bindings" by (simp add: framework_bindings_def)
  have b: "''num_qubits'' \<notin> set framework_bindings" by (simp add: framework_bindings_def)
  show ?thesis using a b exercise2_num_qubits_unbound [OF a b] by blast
qed

text \<open>
  Claim C7, as stated, fails: the Exercise 3 cell reads \<open>initial_position\<close>, which only
  the Exercise 1 cell binds, and on its own, with the framework's names bound, it stops
  with an unbound name.
\<close>

theorem exercise3_cell_not_independent:
  "reads_from exercise3_cell exercise1_cell = [''initial_position''] \<and>
   run_cell (initial_env framework_bindings) exercise3_cell = Inl (NameError ''initial_position'')"
  by (simp add: reads_from_def cell_reads_def cell_binds_def cell_defs
        initial_env_def framework_bindings_def run_body_def)

text \<open>
  Claim C7, amended. The licence cell and the Exercise 1 cell read no name bound by
  another cell, and each runs on its own with the framework's names bound. The
  Exercise 3 cell builds on the cells before it: it reads \<open>initial_position\<close>, bound by
  the Exercise 1 cell, and \<open>DEC\<close>, registered by the Exercise 2 cell.
\<close>

theorem exercise_cells_dependencies:
  "map (reads_from license_cell) notebook = [[], [], [], []] \<and>
   map (reads_from exercise1_cell) notebook = [[], [], [], []] \<and>
   (\<exists>E. run_cell (initial_env framework_bindings) license_cell = Inr E) \<and>
   (\<exists>E. run_cell (initial_env framework_bindings) exercise1_cell = Inr E) \<and>
   reads_from exercise3_cell exercise1_cell = [''initial_position''] \<and>
   reads_from exercise3_cell exercise2_cell = [''DEC'']"
  by (simp add: reads_from_def cell_reads_def cell_binds_def cell_defs
        initial_env_def framework_bindings_def run_body_def)

section \<open>The shift to the left\<close>

lemma flip_update_swap: "t \<noteq> c \<Longrightarrow> flip c (bs[t := v]) = (flip c bs)[t := v]"
  by (simp add: flip_def list_update_swap)

lemma flip_put_bits: "c \<notin> set ts \<Longrightarrow> flip c (put_bits ts vs bs) = put_bits ts vs (flip c bs)"
proof (induction ts vs bs rule: put_bits.induct)
  case (1 t ts v vs bs)
  then show ?case by (simp add: flip_update_swap)
qed simp_all

lemma get_bits_flip:
  assumes "c \<notin> set ts"
  shows "get_bits ts (flip c bs) = get_bits ts bs"
proof -
  have "\<And>t. t \<in> set ts \<Longrightarrow> flip c bs ! t = bs ! t"
  proof -
    fix t assume "t \<in> set ts"
    then have "c \<noteq> t" using assms by auto
    then show "flip c bs ! t = bs ! t" by (simp add: flip_def)
  qed
  then show ?thesis by (simp add: get_bits_def)
qed

lemma flip_nth: "c < length bs \<Longrightarrow> flip c bs ! c = (\<not> bs ! c)"
  by (simp add: flip_def)

lemma apply_x_nth:
  "i < 2 ^ n \<Longrightarrow> apply_x n q \<psi> ! i = \<psi> ! index_of (flip q (bits_of n i))"
  by (simp add: apply_x_def)

lemma index_flip_less: "index_of (flip q (bits_of n i)) < 2 ^ n"
  using index_of_less [of "flip q (bits_of n i)"] by (simp add: length_flip length_bits_of)

lemma bits_index_flip: "bits_of n (index_of (flip q (bits_of n i))) = flip q (bits_of n i)"
  by (simp add: bits_of_index_of length_flip length_bits_of)

lemma index_put_less: "index_of (put_bits ts vs (bits_of n i)) < 2 ^ n"
  using index_of_less [of "put_bits ts vs (bits_of n i)"]
  by (simp add: length_put_bits length_bits_of)

lemma index_put_flip_less: "index_of (put_bits ts vs (flip q (bits_of n i))) < 2 ^ n"
  using index_of_less [of "put_bits ts vs (flip q (bits_of n i))"]
  by (simp add: length_put_bits length_flip length_bits_of)

lemma apply_x_custom_x:
  assumes "i < 2 ^ n" and "c \<notin> set ts"
  shows "apply_custom M n ts (apply_x n c \<psi>) ! index_of (flip c (bits_of n i)) =
         apply_custom M n ts \<psi> ! i"
proof -
  have "\<And>k. apply_x n c \<psi> ! index_of (put_bits ts (bits_of (length ts) k) (flip c (bits_of n i))) =
      \<psi> ! index_of (put_bits ts (bits_of (length ts) k) (bits_of n i))"
  proof -
    fix k
    let ?vs = "bits_of (length ts) k"
    have "bits_of n (index_of (put_bits ts ?vs (flip c (bits_of n i)))) =
        put_bits ts ?vs (flip c (bits_of n i))"
      by (simp add: bits_of_index_of length_put_bits length_flip length_bits_of)
    moreover have "flip c (put_bits ts ?vs (flip c (bits_of n i))) = put_bits ts ?vs (bits_of n i)"
      using assms(2) by (simp add: flip_put_bits flip_flip)
    ultimately show "apply_x n c \<psi> ! index_of (put_bits ts ?vs (flip c (bits_of n i))) =
      \<psi> ! index_of (put_bits ts ?vs (bits_of n i))"
      by (simp add: apply_x_nth index_put_flip_less)
  qed
  then show ?thesis
    using assms
    by (simp add: apply_custom_def index_flip_less bits_index_flip get_bits_flip Let_def)
qed

lemma x_ctrl_x:
  assumes "c < n" and "c \<notin> set ts"
  shows "apply_x n c (apply_ctrl M n c ts (apply_x n c \<psi>)) =
         map (\<lambda>i. if bits_of n i ! c then \<psi> ! i else apply_custom M n ts \<psi> ! i) [0..<2 ^ n]"
proof (rule nth_equalityI)
  show "length (apply_x n c (apply_ctrl M n c ts (apply_x n c \<psi>))) =
        length (map (\<lambda>i. if bits_of n i ! c then \<psi> ! i else apply_custom M n ts \<psi> ! i) [0..<2 ^ n])"
    by (simp add: apply_x_def)
next
  fix i assume "i < length (apply_x n c (apply_ctrl M n c ts (apply_x n c \<psi>)))"
  then have i: "i < 2 ^ n" by (simp add: apply_x_def)
  let ?bs = "bits_of n i"
  let ?j = "index_of (flip c ?bs)"
  have cj: "flip c ?bs ! c = (\<not> ?bs ! c)"
    using assms(1) by (simp add: flip_nth length_bits_of)
  have undo: "apply_x n c \<psi> ! ?j = \<psi> ! i"
    using i by (simp add: apply_x_nth index_flip_less bits_index_flip flip_flip index_of_bits_of)
  have "apply_x n c (apply_ctrl M n c ts (apply_x n c \<psi>)) ! i =
        apply_ctrl M n c ts (apply_x n c \<psi>) ! ?j"
    using i by (simp add: apply_x_nth)
  also have "\<dots> = (if \<not> ?bs ! c then apply_custom M n ts (apply_x n c \<psi>) ! ?j
                    else apply_x n c \<psi> ! ?j)"
    using cj by (simp add: apply_ctrl_def index_flip_less bits_index_flip)
  also have "\<dots> = (if ?bs ! c then \<psi> ! i else apply_custom M n ts \<psi> ! i)"
    using undo apply_x_custom_x [OF i assms(2)] by simp
  finally show "apply_x n c (apply_ctrl M n c ts (apply_x n c \<psi>)) ! i =
        map (\<lambda>i. if bits_of n i ! c then \<psi> ! i else apply_custom M n ts \<psi> ! i) [0..<2 ^ n] ! i"
    using i by simp
qed


lemma index_of_append: "index_of (xs @ ys) = index_of xs * 2 ^ length ys + index_of ys"
  by (induction xs) (simp_all add: power_add algebra_simps)

lemma bits6_split: "bits_of 6 i = bits_of 4 (i div 4) @ bits_of 2 i"
proof -
  have "i div 4 div 8 = i div 32" "i div 4 div 4 = i div 16" "i div 4 div 2 = i div 8"
    by (simp_all add: div_mult2_eq [symmetric])
  then show ?thesis by (simp add: bits_of_numeral)
qed

lemma get4: "get_bits [0, 1, 2, 3] (bits_of 4 w @ rest) = bits_of 4 w"
  by (simp add: get_bits_def bits_of_numeral)

lemma put4: "put_bits [0, 1, 2, 3] (bits_of 4 k) (bits_of 4 w @ rest) = bits_of 4 k @ rest"
  by (simp add: bits_of_numeral)

lemma coin_bit: "(bits_of 4 w @ bits_of 2 i) ! 4 = odd (i div 2)"
  by (simp add: bits_of_numeral nth_append)

lemma low_bits: "i mod 4 = 2 * (i div 2 mod 2) + i mod (2::nat)"
  using mod_mult2_eq [of i 2 2] by simp

lemma apply_custom_nth:
  "i < 2 ^ n \<Longrightarrow>
   apply_custom M n ts \<psi> ! i =
     (\<Sum>k\<leftarrow>[0..<2 ^ length ts].
        complex_of_real (M ! index_of (get_bits ts (bits_of n i)) ! k) *
        \<psi> ! index_of (put_bits ts (bits_of (length ts) k) (bits_of n i)))"
  by (simp add: apply_custom_def Let_def)

lemma apply_custom_walker:
  assumes "i < 64"
  shows "apply_custom M 6 [0, 1, 2, 3] \<psi> ! i =
         (\<Sum>k\<leftarrow>[0..<16]. complex_of_real (M ! (i div 4) ! k) *
             \<psi> ! (4 * k + 2 * (i div 2 mod 2) + i mod 2))"
proof -
  have w: "i div 4 mod 16 = i div 4" using assms by simp
  have r: "index_of (get_bits [0, 1, 2, 3] (bits_of 6 i)) = i div 4"
    unfolding bits6_split get4 using w by (simp add: index_of_bits_of)
  have p: "\<And>k. k < 16 \<Longrightarrow>
      index_of (put_bits [0, 1, 2, 3] (bits_of 4 k) (bits_of 6 i)) =
        4 * k + 2 * (i div 2 mod 2) + i mod 2"
    unfolding bits6_split put4
    by (simp add: index_of_append index_of_bits_of length_bits_of low_bits)
  have l: "length [0, 1, 2, 3 :: nat] = 4" by simp
  have "apply_custom M 6 [0, 1, 2, 3] \<psi> ! i =
        (\<Sum>k\<leftarrow>[0..<2 ^ length [0, 1, 2, 3 :: nat]].
           complex_of_real (M ! index_of (get_bits [0, 1, 2, 3] (bits_of 6 i)) ! k) *
           \<psi> ! index_of (put_bits [0, 1, 2, 3] (bits_of (length [0, 1, 2, 3 :: nat]) k) (bits_of 6 i)))"
    using assms by (intro apply_custom_nth) simp
  also have "\<dots> = (\<Sum>k\<leftarrow>[0..<16]. complex_of_real (M ! (i div 4) ! k) *
            \<psi> ! index_of (put_bits [0, 1, 2, 3] (bits_of 4 k) (bits_of 6 i)))"
    unfolding l r by simp
  also have "\<dots> = (\<Sum>k\<leftarrow>[0..<16]. complex_of_real (M ! (i div 4) ! k) *
             \<psi> ! (4 * k + 2 * (i div 2 mod 2) + i mod 2))"
    by (rule arg_cong [where f = sum_list], rule map_cong) (simp_all only: p set_upt atLeastLessThan_iff)
  finally show ?thesis .
qed

lemma shift_left_operator:
  "apply_x 6 4 (apply_ctrl M 6 4 [0, 1, 2, 3] (apply_x 6 4 \<psi>)) = DEC_on_coin_zero M \<psi>"
proof -
  have "apply_x 6 4 (apply_ctrl M 6 4 [0, 1, 2, 3] (apply_x 6 4 \<psi>)) =
        map (\<lambda>i. if bits_of 6 i ! 4 then \<psi> ! i else apply_custom M 6 [0, 1, 2, 3] \<psi> ! i) [0..<2 ^ 6]"
    by (rule x_ctrl_x) simp_all
  also have "\<dots> = DEC_on_coin_zero M \<psi>"
    unfolding DEC_on_coin_zero_def
  proof (rule map_cong)
    show "[0..<2 ^ 6] = [0..<64::nat]" by simp
  next
    fix i :: nat assume "i \<in> set [0..<64]"
    then have i: "i < 64" by simp
    have c: "bits_of 6 i ! 4 = (i div 2 mod 2 \<noteq> 0)"
      unfolding bits6_split coin_bit by (simp add: odd_iff_mod_2_eq_one)
    show "(if bits_of 6 i ! 4 then \<psi> ! i else apply_custom M 6 [0, 1, 2, 3] \<psi> ! i) =
          (let w = i div 4; c = i div 2 mod 2; e = i mod 2 in
            if c = 0
            then (\<Sum>k\<leftarrow>[0..<16]. complex_of_real (M ! w ! k) * \<psi> ! (4 * k + 2 * c + e))
            else \<psi> ! i)"
      unfolding c Let_def apply_custom_walker [OF i] by simp
  qed
  finally show ?thesis .
qed

lemma sum_basis_row:
  assumes "s < N"
  shows "(\<Sum>k\<leftarrow>[0..<N]. complex_of_real (basis_vec N s ! k) * f k) = f s"
proof -
  have "(\<Sum>k\<leftarrow>[0..<N]. complex_of_real (basis_vec N s ! k) * f k) =
        (\<Sum>k\<in>{0..<N}. complex_of_real (basis_vec N s ! k) * f k)"
    by (simp add: interv_sum_list_conv_sum_set_nat)
  also have "\<dots> = (\<Sum>k\<in>{0..<N}. if k = s then f k else 0)"
    by (rule sum.cong) (simp_all add: basis_vec_nth)
  also have "\<dots> = f s"
    using assms by (simp add: sum.delta)
  finally show ?thesis .
qed

lemma DEC_on_coin_zero_dec:
  "DEC_on_coin_zero (dec_matrix 16) \<psi> =
     map (\<lambda>i. if i div 2 mod 2 = 0 then \<psi> ! (4 * succ_mod 16 (i div 4) + i mod 2) else \<psi> ! i)
       [0..<64]"
  unfolding DEC_on_coin_zero_def
proof (rule map_cong)
  fix i :: nat assume "i \<in> set [0..<64]"
  then have w: "i div 4 < 16" by simp
  then have s: "succ_mod 16 (i div 4) < 16" by (simp add: succ_mod_def)
  show "(let w = i div 4; c = i div 2 mod 2; e = i mod 2 in
          if c = 0
          then (\<Sum>k\<leftarrow>[0..<16]. complex_of_real (dec_matrix 16 ! w ! k) * \<psi> ! (4 * k + 2 * c + e))
          else \<psi> ! i) =
        (if i div 2 mod 2 = 0 then \<psi> ! (4 * succ_mod 16 (i div 4) + i mod 2) else \<psi> ! i)"
    using sum_basis_row [OF s, of "\<lambda>k. \<psi> ! (4 * k + i mod 2)"]
    by (simp add: Let_def dec_matrix_row [OF w])
qed simp

lemma walk_index_decode:
  fixes a b d :: nat
  assumes "b < 2" and "d < 2"
  shows "(4 * a + 2 * b + d) div 4 = a"
    and "(4 * a + 2 * b + d) div 2 mod 2 = b"
    and "(4 * a + 2 * b + d) mod 2 = d"
  using assms by presburger+

lemma walk_index_unique:
  fixes a b d :: nat
  assumes "b < 2" and "d < 2" and "b' < 2" and "d' < 2"
  shows "4 * a + 2 * b + d = 4 * a' + 2 * b' + d' \<longleftrightarrow> a = a' \<and> b = b' \<and> d = d'"
proof
  assume eq: "4 * a + 2 * b + d = 4 * a' + 2 * b' + d'"
  have "a = (4 * a + 2 * b + d) div 4" using assms(1,2) by (simp only: walk_index_decode)
  also have "\<dots> = a'" unfolding eq using assms(3,4) by (simp only: walk_index_decode)
  finally have 1: "a = a'" .
  have "b = (4 * a + 2 * b + d) div 2 mod 2" using assms(1,2) by (simp only: walk_index_decode)
  also have "\<dots> = b'" unfolding eq using assms(3,4) by (simp only: walk_index_decode)
  finally have 2: "b = b'" .
  have "d = (4 * a + 2 * b + d) mod 2" using assms(1,2) by (simp only: walk_index_decode)
  also have "\<dots> = d'" unfolding eq using assms(3,4) by (simp only: walk_index_decode)
  finally have 3: "d = d'" .
  from 1 2 3 show "a = a' \<and> b = b' \<and> d = d'" by simp
qed simp

lemma walk_index_shift:
  assumes "i < 64" and "w < 16" and "c < 2" and "e < 2"
  shows "(if i div 2 mod 2 = 0
       then 4 * succ_mod 16 (i div 4) + i mod 2 = 4 * w + 2 * c + e
       else i = 4 * w + 2 * c + e) \<longleftrightarrow>
      i = 4 * (if c = 0 then pred_mod 16 w else w) + 2 * c + e"
proof -
  define wi ci ei where "wi = i div 4" and "ci = i div 2 mod 2" and "ei = i mod 2"
  have d: "i = 4 * wi + 2 * ci + ei"
    unfolding wi_def ci_def ei_def by presburger
  have bw: "wi < 16" using assms(1) by (simp add: wi_def)
  have bc: "ci < 2" by (simp add: ci_def)
  have be: "ei < 2" by (simp add: ei_def)
  have z: "(0::nat) < 2" by simp
  have sp: "w = succ_mod 16 wi \<longleftrightarrow> wi = pred_mod 16 w"
    using bw assms(2) by (rule succ_pred_mod)
  have r: "i = 4 * (if c = 0 then pred_mod 16 w else w) + 2 * c + e \<longleftrightarrow>
           wi = (if c = 0 then pred_mod 16 w else w) \<and> ci = c \<and> ei = e"
    unfolding d using bc be assms(3,4) by (rule walk_index_unique)
  have "(if ci = 0 then 4 * succ_mod 16 wi + ei = 4 * w + 2 * c + e
         else i = 4 * w + 2 * c + e) \<longleftrightarrow>
        i = 4 * (if c = 0 then pred_mod 16 w else w) + 2 * c + e"
  proof (cases "ci = 0")
    case True
    have "4 * succ_mod 16 wi + 2 * 0 + ei = 4 * w + 2 * c + e \<longleftrightarrow>
          succ_mod 16 wi = w \<and> 0 = c \<and> ei = e"
      using z be assms(3,4) by (rule walk_index_unique)
    then have "4 * succ_mod 16 wi + ei = 4 * w + 2 * c + e \<longleftrightarrow>
          succ_mod 16 wi = w \<and> 0 = c \<and> ei = e"
      by simp
    then show ?thesis
      unfolding r using True sp by auto
  next
    case False
    have "i = 4 * w + 2 * c + e \<longleftrightarrow> wi = w \<and> ci = c \<and> ei = e"
      unfolding d using bc be assms(3,4) by (rule walk_index_unique)
    then show ?thesis
      unfolding r using False by auto
  qed
  then show ?thesis
    unfolding wi_def ci_def ei_def .
qed

lemma ket6: "ket 6 j = map (\<lambda>i. if i = j then 1 else 0) [0..<64]"
  unfolding ket_map by simp

lemma ket6_nth: "i < 64 \<Longrightarrow> ket 6 j ! i = (if i = j then 1 else 0)"
  by (simp add: ket_def nth_list_update)

lemma if_collapse:
  "((if C then A else B) \<longleftrightarrow> D) \<Longrightarrow>
   (if C then (if A then x else y) else (if B then x else y)) = (if D then x else y)"
  by (cases C) simp_all

lemma DEC_on_coin_zero_ket:
  assumes "w < 16" and "c < 2" and "e < 2"
  shows "DEC_on_coin_zero (dec_matrix 16) (ket 6 (4 * w + 2 * c + e)) =
         ket 6 (4 * (if c = 0 then pred_mod 16 w else w) + 2 * c + e)"
proof -
  let ?j = "4 * w + 2 * c + e"
  let ?t = "4 * (if c = 0 then pred_mod 16 w else w) + 2 * c + e"
  have "DEC_on_coin_zero (dec_matrix 16) (ket 6 ?j) =
        map (\<lambda>i. if i div 2 mod 2 = 0 then ket 6 ?j ! (4 * succ_mod 16 (i div 4) + i mod 2)
                 else ket 6 ?j ! i) [0..<64]"
    by (rule DEC_on_coin_zero_dec)
  also have "\<dots> = map (\<lambda>i. if i = ?t then 1 else 0) [0..<64]"
  proof (rule map_cong [OF refl])
    fix i :: nat assume "i \<in> set [0..<64]"
    then have i: "i < 64" by simp
    then have "succ_mod 16 (i div 4) < 16" by (simp add: succ_mod_def)
    moreover have "i mod 2 < 2" by simp
    ultimately have b: "4 * succ_mod 16 (i div 4) + i mod 2 < 64" by linarith
    show "(if i div 2 mod 2 = 0 then ket 6 ?j ! (4 * succ_mod 16 (i div 4) + i mod 2)
           else ket 6 ?j ! i) = (if i = ?t then 1 else 0)"
      unfolding ket6_nth [OF b] ket6_nth [OF i]
      by (rule if_collapse) (rule walk_index_shift [OF i assms])
  qed
  also have "\<dots> = ket 6 ?t"
    by (rule ket6 [symmetric])
  finally show ?thesis .
qed

text \<open>
  Claim C9. The gates \<open>x(coin_qubit)\<close>, \<open>DEC.ctrl(coin_qubit, walker_qubits[0..3])\<close>,
  \<open>x(coin_qubit)\<close> of \<open>DTQW_one_step\<close> are together the DEC controlled on the coin
  being 0: on every state of the register they apply the decrementer matrix to the
  walker qubits where the coin bit is 0 and nothing where it is 1, so a basis state
  with walker position \<open>w\<close> and coin 0 goes to position \<open>(w - 1) mod 16\<close>, a basis state
  with coin 1 stays, and the coin bit is the same afterwards.
\<close>

theorem shift_left_is_DEC_on_coin_zero:
  assumes "length \<psi> = 64" and "w < 16" and "c < 2" and "e < 2"
  shows "\<exists>body. (array_fits mc 16 16 \<longrightarrow> decrementer mc 4 = Inr (dec_matrix 16)) \<and>
           register_operation ''DEC'' (dec_matrix 16) ops = Inr (ops(''DEC'' \<mapsto> dec_matrix 16)) \<and>
           DTQW_one_step 4 = Inr body \<and>
           gates (take 3 (drop 7 body)) = [X 4, Ctrl ''DEC'' 4 [0, 1, 2, 3], X 4] \<and>
           run_gates (ops(''DEC'' \<mapsto> dec_matrix 16)) (DTQW_register 4)
               (gates (take 3 (drop 7 body))) \<psi> =
             Some (DEC_on_coin_zero (dec_matrix 16) \<psi>) \<and>
           length (DEC_on_coin_zero (dec_matrix 16) \<psi>) = 64 \<and>
           DEC_on_coin_zero (dec_matrix 16) (ket 6 (4 * w + 2 * c + e)) =
             ket 6 (4 * (if c = 0 then pred_mod 16 w else w) + 2 * c + e)"
proof -
  let ?body = "[Call ''initial_position'' [0..<4], Gate (H 4), Gate (H 4),
          Call ''no_INC_at_right_endpoint'' ([0..<4] @ [4, 5]),
          Gate (Ctrl ''INC'' 4 [0, 1, 2, 3]),
          Call ''reset_coin_and_endpoint'' [4, 5],
          Call ''no_DEC_at_left_endpoint'' ([0..<4] @ [4, 5]),
          Gate (X 4), Gate (Ctrl ''DEC'' 4 [0, 1, 2, 3]), Gate (X 4),
          Call ''reset_coin_and_endpoint'' [4, 5], Mz [0..<4]]"
  have b: "DTQW_one_step 4 = Inr ?body"
    by (simp add: DTQW_one_step_def Let_def)
  have g: "gates (take 3 (drop 7 ?body)) = [X 4, Ctrl ''DEC'' 4 [0, 1, 2, 3], X 4]"
    by simp
  have r: "run_gates (ops(''DEC'' \<mapsto> dec_matrix 16)) (DTQW_register 4)
             [X 4, Ctrl ''DEC'' 4 [0, 1, 2, 3], X 4] \<psi> =
           Some (DEC_on_coin_zero (dec_matrix 16) \<psi>)"
    unfolding shift_left_operator [symmetric]
    by (simp add: apply_gate_def valid_targets_def dec_matrix_length DTQW_register_def)
  have q: "register_operation ''DEC'' (dec_matrix 16) ops = Inr (ops(''DEC'' \<mapsto> dec_matrix 16))"
    by (rule register_dec_16)
  have l: "length (DEC_on_coin_zero (dec_matrix 16) \<psi>) = 64"
    by (simp add: DEC_on_coin_zero_def)
  have m: "array_fits mc 16 16 \<longrightarrow> decrementer mc 4 = Inr (dec_matrix 16)"
    by (simp add: decrementer_4)
  show ?thesis
    using m q b g r l DEC_on_coin_zero_ket [OF assms(2-4)] by (metis (no_types))
qed

theorem shift_left_is_DEC_on_coin_zero_witness:
  "length (ket 6 4) = 64 \<and> (1::nat) < 16 \<and> (0::nat) < 2 \<and>
   array_fits (machine64 (2 ^ 34)) 16 16 \<and>
   (\<exists>body. decrementer (machine64 (2 ^ 34)) 4 = Inr (dec_matrix 16) \<and>
      register_operation ''DEC'' (dec_matrix 16) Map.empty = Inr [''DEC'' \<mapsto> dec_matrix 16] \<and>
      DTQW_one_step 4 = Inr body \<and>
      run_gates [''DEC'' \<mapsto> dec_matrix 16] (DTQW_register 4)
          (gates (take 3 (drop 7 body))) (ket 6 4) =
        Some (DEC_on_coin_zero (dec_matrix 16) (ket 6 4)) \<and>
      DEC_on_coin_zero (dec_matrix 16) (ket 6 4) = ket 6 0)"
proof -
  have l: "length (ket 6 4) = 64" by (simp add: ket_def)
  have w: "(1::nat) < 16" and z: "(0::nat) < 2" by simp_all
  have a: "array_fits (machine64 (2 ^ 34)) 16 16"
    by (simp add: array_fits_def machine64_def)
  have p: "pred_mod 16 1 = 0" by (simp add: pred_mod_def)
  from shift_left_is_DEC_on_coin_zero [OF l w z z, of "machine64 (2 ^ 34)" Map.empty]
  obtain body where
    f: "array_fits (machine64 (2 ^ 34)) 16 16 \<longrightarrow>
          decrementer (machine64 (2 ^ 34)) 4 = Inr (dec_matrix 16)"
    "register_operation ''DEC'' (dec_matrix 16) Map.empty = Inr [''DEC'' \<mapsto> dec_matrix 16]"
    "DTQW_one_step 4 = Inr body"
    "run_gates [''DEC'' \<mapsto> dec_matrix 16] (DTQW_register 4)
          (gates (take 3 (drop 7 body))) (ket 6 4) =
        Some (DEC_on_coin_zero (dec_matrix 16) (ket 6 4))"
    "DEC_on_coin_zero (dec_matrix 16) (ket 6 (4 * 1 + 2 * 0 + 0)) =
             ket 6 (4 * (if (0::nat) = 0 then pred_mod 16 1 else 1) + 2 * 0 + 0)"
    by blast
  have "DEC_on_coin_zero (dec_matrix 16) (ket 6 4) = ket 6 0"
    using f(5) p by simp
  then show ?thesis using l w z a f(1-4) by blast
qed


section \<open>Sampling the walk step\<close>













section \<open>The walk step and the total probability\<close>












lemma update_same_bit: "q < length bs \<Longrightarrow> bs[q := bs ! q] = bs"
  by (rule list_update_id)



























end
